theory Spec2Isabelle
  imports Complex_Main "HOL-Library.AList"
begin

section \<open>Data model of computation.py\<close>

text \<open>
  \<^verbatim>\<open>class Airport\<close>: six plain attributes, never mutated after construction.
\<close>

record airport =
  icao :: string
  name :: string
  city_iata :: string
  country :: string
  latitude :: real
  longitude :: real

text \<open>
  \<^verbatim>\<open>class Flight\<close>. The class defines neither \<^verbatim>\<open>__eq__\<close> nor \<^verbatim>\<open>__hash__\<close>, so
  Python compares and hashes flights by object identity: two \<^verbatim>\<open>Flight\<close> objects built
  from the same seven values are different members of a \<^verbatim>\<open>set\<close>. The field \<open>ident\<close>
  carries that identity (Python's \<^verbatim>\<open>id(flight)\<close>); the other seven fields are the
  attributes of the class. Two records denote the same Python object exactly when
  they are equal. A \<^verbatim>\<open>datetime\<close> is an instant, counted in microseconds as an
  \<open>int\<close>; a \<^verbatim>\<open>timedelta\<close> is a signed number of microseconds.
\<close>

record flight =
  ident :: nat
  flight_number :: string
  airline_name :: string
  airline_icao :: string
  origin :: airport
  destination :: airport
  departure_time :: int
  arrival_time :: int

text \<open>\<^verbatim>\<open>Flight.get_duration\<close>: \<^verbatim>\<open>self.arrival_time - self.departure_time\<close>.\<close>

definition get_duration :: "flight \<Rightarrow> int" where
  "get_duration f = arrival_time f - departure_time f"

text \<open>
  \<^verbatim>\<open>timedelta.max\<close> is 999999999 days, 23:59:59.999999, in microseconds.
  Sums of durations are plain integers here: the \<^verbatim>\<open>OverflowError\<close> Python raises
  for a \<^verbatim>\<open>timedelta\<close> beyond that magnitude is outside the model.
\<close>

definition timedelta_max :: int where
  "timedelta_max = 86399999999999999999"

text \<open>
  \<^verbatim>\<open>class FlightNetwork\<close>: two dictionaries, kept as association lists read with
  \<open>map_of\<close> and written with \<open>AList.update\<close>. The value stored under an origin code
  is a Python \<^verbatim>\<open>set\<close> of flights; it is kept as a list whose order stands for the
  iteration order of that set, which Python leaves unspecified. Every theorem
  about a query holds for any order of these lists.
\<close>

record network =
  airports :: "(string \<times> airport) list"
  flights :: "(string \<times> flight list) list"

datatype error = ValueError string | IndexError | KeyError string | RequestException

text \<open>\<^verbatim>\<open>FlightNetwork.__init__\<close>\<close>

definition init_network :: network where
  "init_network = \<lparr>airports = [], flights = []\<rparr>"

text \<open>\<^verbatim>\<open>code in self.airports\<close>\<close>

definition in_airports :: "network \<Rightarrow> string \<Rightarrow> bool" where
  "in_airports g code = (map_of (airports g) code \<noteq> None)"

text \<open>\<^verbatim>\<open>self.flights.get(code, set())\<close>\<close>

definition flights_get :: "network \<Rightarrow> string \<Rightarrow> flight list" where
  "flights_get g code = (case map_of (flights g) code of None \<Rightarrow> [] | Some fs \<Rightarrow> fs)"

text \<open>\<^verbatim>\<open>s.add(x)\<close> on a set: nothing happens when the object is already a member.\<close>

definition set_add :: "flight \<Rightarrow> flight list \<Rightarrow> flight list" where
  "set_add f fs = (if f \<in> set fs then fs else fs @ [f])"

section \<open>Construction\<close>

text \<open>
  Both methods change the network in place and return \<^verbatim>\<open>None\<close> or raise. The model
  returns the outcome together with the network as the call leaves it.

  \<^verbatim>\<open>add_airport\<close> is the single assignment \<^verbatim>\<open>self.airports[airport.icao] = airport\<close>;
  the source has no \<^verbatim>\<open>raise\<close> here.
\<close>

definition add_airport :: "network \<Rightarrow> airport \<Rightarrow> (error + unit) \<times> network" where
  "add_airport g a = (Inr (), g\<lparr>airports := AList.update (icao a) a (airports g)\<rparr>)"

text \<open>\<^verbatim>\<open>add_flight\<close>: both checks come before the first assignment.\<close>

definition add_flight :: "network \<Rightarrow> flight \<Rightarrow> (error + unit) \<times> network" where
  "add_flight g f =
     (if \<not> in_airports g (icao (origin f)) then
        (Inl (ValueError ''Origin airport not in network''), g)
      else if \<not> in_airports g (icao (destination f)) then
        (Inl (ValueError ''Destination airport not in network''), g)
      else
        (case map_of (flights g) (icao (origin f)) of
           Some fs \<Rightarrow>
             (Inr (), g\<lparr>flights := AList.update (icao (origin f)) (set_add f fs) (flights g)\<rparr>)
         | None \<Rightarrow>
             (Inr (), g\<lparr>flights := AList.update (icao (origin f)) [f] (flights g)\<rparr>)))"

section \<open>Layover of a route\<close>

text \<open>
  \<^verbatim>\<open>total_layover\<close>: the loop \<^verbatim>\<open>for i in range(1, len(route))\<close> adds
  \<^verbatim>\<open>route[i].departure_time - route[i - 1].arrival_time\<close> to a total that starts at
  \<^verbatim>\<open>timedelta()\<close>. Both indices are in range inside the loop.
\<close>

definition total_layover :: "flight list \<Rightarrow> int" where
  "total_layover route =
     fold (\<lambda>i total. total + (departure_time (route ! i) - arrival_time (route ! (i - 1))))
       [1 ..< length route] 0"

section \<open>Enumeration of routes\<close>

text \<open>The destination codes of all stored flights: a finite set that bounds the search.\<close>

definition dest_codes :: "network \<Rightarrow> string set" where
  "dest_codes g = set (map (\<lambda>f. icao (destination f)) (concat (map snd (flights g))))"

lemma finite_dest_codes: "finite (dest_codes g)"
  by (simp add: dest_codes_def)

lemma flights_get_dest_codes:
  "f \<in> set (flights_get g code) \<Longrightarrow> icao (destination f) \<in> dest_codes g"
proof -
  assume a: "f \<in> set (flights_get g code)"
  then obtain fs where m: "map_of (flights g) code = Some fs" and f: "f \<in> set fs"
    by (cases "map_of (flights g) code") (auto simp: flights_get_def)
  from m have "(code, fs) \<in> set (flights g)" by (rule map_of_SomeD)
  with f show ?thesis by (force simp: dest_codes_def)
qed

lemma card_dest_codes_less:
  assumes "d \<in> dest_codes g \<union> D" and "d \<notin> V" and "finite D"
  shows "card (dest_codes g - insert d V) < card ((dest_codes g \<union> D) - V)"
proof (rule psubset_card_mono)
  show "finite ((dest_codes g \<union> D) - V)" using assms(3) by (simp add: finite_dest_codes)
  show "dest_codes g - insert d V \<subset> (dest_codes g \<union> D) - V" using assms(1,2) by auto
qed

text \<open>
  \<^verbatim>\<open>find_paths\<close> with its loop \<^verbatim>\<open>for flight in self.flights.get(current_code, set())\<close>
  as the second function. \<^verbatim>\<open>all_paths\<close> is threaded through and returned.
  \<^verbatim>\<open>paths.append(flight)\<close> ... \<^verbatim>\<open>paths.pop()\<close> leaves \<^verbatim>\<open>paths\<close> as it was, so the
  recursive call gets \<open>paths @ [flight]\<close> and the loop goes on with \<open>paths\<close>.
  \<^verbatim>\<open>visited.add(current_code)\<close> ... \<^verbatim>\<open>visited.remove(current_code)\<close>: a call is made
  only with a code that is not in \<^verbatim>\<open>visited\<close> (the set is empty at the first call, and
  the loop tests \<^verbatim>\<open>flight.destination.icao not in visited\<close>), so the callee hands
  \<^verbatim>\<open>visited\<close> back unchanged; \<open>visited\<close> below is the set on entry, and the loop runs
  with \<open>insert current_code visited\<close>.
\<close>

function find_paths ::
    "network \<Rightarrow> string \<Rightarrow> string \<Rightarrow> flight list \<Rightarrow> string set \<Rightarrow> flight list list
      \<Rightarrow> flight list list"
  and find_paths_loop ::
    "network \<Rightarrow> string \<Rightarrow> flight list \<Rightarrow> flight list \<Rightarrow> string set \<Rightarrow> flight list list
      \<Rightarrow> flight list list"
where
  "find_paths g current_code target_code paths visited all_paths =
     (if current_code = target_code then all_paths @ [paths]
      else find_paths_loop g target_code (flights_get g current_code) paths
             (insert current_code visited) all_paths)"
| "find_paths_loop g target_code [] paths visited all_paths = all_paths"
| "find_paths_loop g target_code (fl # rest) paths visited all_paths =
     (if icao (destination fl) \<notin> visited then
        find_paths_loop g target_code rest paths visited
          (find_paths g (icao (destination fl)) target_code (paths @ [fl]) visited all_paths)
      else find_paths_loop g target_code rest paths visited all_paths)"
  by pat_completeness auto
termination
proof (relation "inv_image (less_than <*lex*> less_than)
    (\<lambda>x. case x of
       Inl (g, c, t, p, v, a) \<Rightarrow>
         (card (dest_codes g - insert c v), Suc (length (flights_get g c)))
     | Inr (g, t, fs, p, v, a) \<Rightarrow>
         (card ((dest_codes g \<union> (\<lambda>f. icao (destination f)) ` set fs) - v), length fs))",
    goal_cases)
  case 1
  show ?case by (intro wf_inv_image wf_lex_prod wf_less_than)
next
  case (2 g c t p v a)
  have "(\<lambda>f. icao (destination f)) ` set (flights_get g c) \<subseteq> dest_codes g"
    using flights_get_dest_codes by auto
  then have "dest_codes g \<union> (\<lambda>f. icao (destination f)) ` set (flights_get g c) = dest_codes g"
    by auto
  then show ?case by simp
next
  case (3 g t fl rest p v a)
  then show ?case
    using card_dest_codes_less [of "icao (destination fl)" g
        "(\<lambda>f. icao (destination f)) ` set (fl # rest)" v]
    by simp
next
  case (4 g t fl rest p v a)
  have "card ((dest_codes g \<union> (\<lambda>f. icao (destination f)) ` set rest) - v)
      \<le> card ((dest_codes g \<union> (\<lambda>f. icao (destination f)) ` set (fl # rest)) - v)"
    by (rule card_mono) (auto simp: finite_dest_codes)
  then show ?case by auto
next
  case (5 g t fl rest p v a)
  have "card ((dest_codes g \<union> (\<lambda>f. icao (destination f)) ` set rest) - v)
      \<le> card ((dest_codes g \<union> (\<lambda>f. icao (destination f)) ` set (fl # rest)) - v)"
    by (rule card_mono) (auto simp: finite_dest_codes)
  then show ?case by auto
qed

definition find_all_routes :: "network \<Rightarrow> string \<Rightarrow> string \<Rightarrow> error + flight list list" where
  "find_all_routes g from_code to_code =
     (if \<not> in_airports g from_code then Inl (ValueError ''Departure airport not found'')
      else if \<not> in_airports g to_code then Inl (ValueError ''Destination airport not found'')
      else Inr (find_paths g from_code to_code [] {} []))"

section \<open>Shortest total flight time\<close>

text \<open>\<^verbatim>\<open>if x is None: x = d\<close> for the optional parameters.\<close>

definition or_default :: "'a \<Rightarrow> 'a option \<Rightarrow> 'a" where
  "or_default d x = (case x of None \<Rightarrow> d | Some v \<Rightarrow> v)"

text \<open>
  \<^verbatim>\<open>find_shortest_time_path\<close> with its six parameters, the last four optional, and its
  loop over the flights of \<^verbatim>\<open>start_code\<close> as the second function. The recursive call
  gets \<^verbatim>\<open>visited.copy()\<close>, the list \<^verbatim>\<open>current_flights\<close> with the flight appended (popped
  again after the call) and the incumbent \<^verbatim>\<open>best_path\<close>; an exception raised by the
  recursive call leaves the loop at once. The last line is
  \<^verbatim>\<open>return best_path if best_path[0] else ([], timedelta.max)\<close>.
\<close>

function find_shortest_time_path ::
    "network \<Rightarrow> string \<Rightarrow> string \<Rightarrow> string set option \<Rightarrow> int \<Rightarrow> flight list option
      \<Rightarrow> (flight list \<times> int) option \<Rightarrow> error + (flight list \<times> int)"
  and find_shortest_time_path_loop ::
    "network \<Rightarrow> string \<Rightarrow> flight list \<Rightarrow> string set \<Rightarrow> int \<Rightarrow> flight list
      \<Rightarrow> (flight list \<times> int) \<Rightarrow> error + (flight list \<times> int)"
where
  "find_shortest_time_path g start_code end_code visited current_time current_flights best_path =
     (if \<not> in_airports g start_code then Inl (ValueError ''Departure airport not found'')
      else if \<not> in_airports g end_code then Inl (ValueError ''Destination airport not found'')
      else if start_code = end_code then
        (if current_time < snd (or_default ([], timedelta_max) best_path)
         then Inr (or_default [] current_flights, current_time)
         else Inr (or_default ([], timedelta_max) best_path))
      else
        (case find_shortest_time_path_loop g end_code (flights_get g start_code)
                (insert start_code (or_default {} visited)) current_time
                (or_default [] current_flights) (or_default ([], timedelta_max) best_path) of
           Inl e \<Rightarrow> Inl e
         | Inr best \<Rightarrow> Inr (if fst best \<noteq> [] then best else ([], timedelta_max))))"
| "find_shortest_time_path_loop g end_code [] visited current_time current_flights best_path =
     Inr best_path"
| "find_shortest_time_path_loop g end_code (fl # rest) visited current_time current_flights
       best_path =
     (if icao (destination fl) \<notin> visited then
        (if current_time + get_duration fl < snd best_path then
           (case find_shortest_time_path g (icao (destination fl)) end_code (Some visited)
                   (current_time + get_duration fl) (Some (current_flights @ [fl]))
                   (Some best_path) of
              Inl e \<Rightarrow> Inl e
            | Inr found \<Rightarrow>
                find_shortest_time_path_loop g end_code rest visited current_time current_flights
                  (if snd found < snd best_path then found else best_path))
         else find_shortest_time_path_loop g end_code rest visited current_time current_flights
                best_path)
      else find_shortest_time_path_loop g end_code rest visited current_time current_flights
             best_path)"
  by pat_completeness auto
termination
proof (relation "inv_image (less_than <*lex*> less_than)
    (\<lambda>x. case x of
       Inl (g, s, e, v, ct, cf, bp) \<Rightarrow>
         (card (dest_codes g - insert s (or_default {} v)), Suc (length (flights_get g s)))
     | Inr (g, e, fs, v, ct, cf, bp) \<Rightarrow>
         (card ((dest_codes g \<union> (\<lambda>f. icao (destination f)) ` set fs) - v), length fs))",
    goal_cases)
  case 1
  show ?case by (intro wf_inv_image wf_lex_prod wf_less_than)
next
  case (2 g s e v ct cf bp)
  have "(\<lambda>f. icao (destination f)) ` set (flights_get g s) \<subseteq> dest_codes g"
    using flights_get_dest_codes by auto
  then have "dest_codes g \<union> (\<lambda>f. icao (destination f)) ` set (flights_get g s) = dest_codes g"
    by auto
  then show ?case by simp
next
  case (3 g e fl rest v ct cf bp)
  then show ?case
    using card_dest_codes_less [of "icao (destination fl)" g
        "(\<lambda>f. icao (destination f)) ` set (fl # rest)" v]
    by (simp add: or_default_def)
next
  case (4 g e fl rest v ct cf bp found)
  have "card ((dest_codes g \<union> (\<lambda>f. icao (destination f)) ` set rest) - v)
      \<le> card ((dest_codes g \<union> (\<lambda>f. icao (destination f)) ` set (fl # rest)) - v)"
    by (rule card_mono) (auto simp: finite_dest_codes)
  then show ?case by auto
next
  case (5 g e fl rest v ct cf bp)
  have "card ((dest_codes g \<union> (\<lambda>f. icao (destination f)) ` set rest) - v)
      \<le> card ((dest_codes g \<union> (\<lambda>f. icao (destination f)) ` set (fl # rest)) - v)"
    by (rule card_mono) (auto simp: finite_dest_codes)
  then show ?case by auto
next
  case (6 g e fl rest v ct cf bp)
  have "card ((dest_codes g \<union> (\<lambda>f. icao (destination f)) ` set rest) - v)
      \<le> card ((dest_codes g \<union> (\<lambda>f. icao (destination f)) ` set (fl # rest)) - v)"
    by (rule card_mono) (auto simp: finite_dest_codes)
  then show ?case by auto
qed

section \<open>Shortest total layover\<close>

text \<open>The loop \<^verbatim>\<open>for route in all_routes[1:]\<close> with its two variables.\<close>

fun shortest_layover_loop :: "flight list list \<Rightarrow> flight list \<Rightarrow> int \<Rightarrow> flight list" where
  "shortest_layover_loop [] best_route min_layover = best_route"
| "shortest_layover_loop (route # rest) best_route min_layover =
     (if total_layover route < min_layover
      then shortest_layover_loop rest route (total_layover route)
      else shortest_layover_loop rest best_route min_layover)"

text \<open>\<^verbatim>\<open>all_routes[0]\<close> raises \<^verbatim>\<open>IndexError\<close> on the empty list.\<close>

definition find_shortest_layover :: "network \<Rightarrow> string \<Rightarrow> string \<Rightarrow> error + flight list" where
  "find_shortest_layover g start_code end_code =
     (case find_all_routes g start_code end_code of
        Inl e \<Rightarrow> Inl e
      | Inr all_routes \<Rightarrow>
          (case all_routes of
             [] \<Rightarrow> Inl IndexError
           | best_route # others \<Rightarrow>
               Inr (shortest_layover_loop others best_route (total_layover best_route))))"

section \<open>Filters\<close>

text \<open>
  \<^verbatim>\<open>str.lower\<close>. A Python string is kept as a list of characters, one for each code
  point, and a character holds a code point below 256; strings with a code point
  above 255 are outside the model. Among these code points \<^verbatim>\<open>str.lower\<close> changes
  exactly the capital letters: A to Z (65 to 90) and the accented capitals 192 to 214
  and 216 to 222, each moved up by 32; every other code point, the multiplication
  sign 215 among them, is left as it is, and no code point is replaced by more than
  one.
\<close>

definition lower_char :: "char \<Rightarrow> char" where
  "lower_char c =
     (if (65 \<le> (of_char c :: nat) \<and> (of_char c :: nat) \<le> 90)
         \<or> (192 \<le> (of_char c :: nat) \<and> (of_char c :: nat) \<le> 214)
         \<or> (216 \<le> (of_char c :: nat) \<and> (of_char c :: nat) \<le> 222)
      then char_of ((of_char c :: nat) + 32) else c)"

definition lower :: "string \<Rightarrow> string" where
  "lower s = map lower_char s"

text \<open>\<^verbatim>\<open>any(flight.airline_name.lower() == airline.lower() for flight in route)\<close>\<close>

fun any_airline :: "string \<Rightarrow> flight list \<Rightarrow> bool" where
  "any_airline airline [] = False"
| "any_airline airline (fl # route) =
     (if lower (airline_name fl) = lower airline then True else any_airline airline route)"

fun airline_loop :: "string \<Rightarrow> flight list list \<Rightarrow> flight list list \<Rightarrow> flight list list" where
  "airline_loop airline [] airline_routes = airline_routes"
| "airline_loop airline (route # rest) airline_routes =
     (if any_airline airline route then airline_loop airline rest (airline_routes @ [route])
      else airline_loop airline rest airline_routes)"

definition find_routes_by_airline ::
    "network \<Rightarrow> string \<Rightarrow> string \<Rightarrow> string \<Rightarrow> error + flight list list" where
  "find_routes_by_airline g origin_code destination_code airline =
     (case find_all_routes g origin_code destination_code of
        Inl e \<Rightarrow> Inl e
      | Inr all_routes \<Rightarrow> Inr (airline_loop airline all_routes []))"

text \<open>
  \<^verbatim>\<open>find_valid_routes\<close>. The request to the visa service, the decoding of its answer
  and the loop that collects the \<^verbatim>\<open>name\<close> of every entry of \<^verbatim>\<open>passport_data["VR"]\<close> are
  the parameter \<open>visa_required\<close>: it gives the list \<^verbatim>\<open>countries_required_visa\<close>, or the
  exception that the request, the decoding or a missing key raises. It runs before
  the routes are enumerated.
\<close>

fun countries_loop :: "string list \<Rightarrow> flight list \<Rightarrow> string list \<Rightarrow> string list" where
  "countries_loop countries_required_visa [] countries = countries"
| "countries_loop countries_required_visa (fl # route) countries =
     (if country (destination fl) \<notin> set countries_required_visa
      then countries_loop countries_required_visa route (countries @ [country (destination fl)])
      else countries_loop countries_required_visa route countries)"

fun valid_loop :: "string list \<Rightarrow> flight list list \<Rightarrow> flight list list \<Rightarrow> flight list list" where
  "valid_loop countries_required_visa [] valid_routes = valid_routes"
| "valid_loop countries_required_visa (route # rest) valid_routes =
     (if countries_loop countries_required_visa route [] \<noteq> []
      then valid_loop countries_required_visa rest (valid_routes @ [route])
      else valid_loop countries_required_visa rest valid_routes)"

definition find_valid_routes ::
    "(string \<Rightarrow> error + string list) \<Rightarrow> network \<Rightarrow> string \<Rightarrow> string \<Rightarrow> string
      \<Rightarrow> error + flight list list" where
  "find_valid_routes visa_required g passport origin_code destination_code =
     (case visa_required passport of
        Inl e \<Rightarrow> Inl e
      | Inr countries_required_visa \<Rightarrow>
          (case find_all_routes g origin_code destination_code of
             Inl e \<Rightarrow> Inl e
           | Inr all_routes \<Rightarrow> Inr (valid_loop countries_required_visa all_routes [])))"

section \<open>Invariants and routes, as the docstrings and the specification word them\<close>

text \<open>
  A property of every flight stored in the network, with the key it is stored under.
\<close>

definition every_flight :: "(string \<Rightarrow> flight \<Rightarrow> bool) \<Rightarrow> network \<Rightarrow> bool" where
  "every_flight P g = list_all (\<lambda>(k, fs). list_all (P k) fs) (flights g)"

text \<open>
  Three of the documented representation invariants. \<^verbatim>\<open>FlightNetwork\<close>: a flight is
  stored under the code of its origin, and its destination is a registered airport
  (\<^verbatim>\<open>add_flight\<close> establishes both). \<^verbatim>\<open>Flight\<close>:
  \<^verbatim>\<open>self.departure_time < self.arrival_time\<close>.
\<close>

definition flights_keyed :: "network \<Rightarrow> bool" where
  "flights_keyed g = every_flight (\<lambda>k fl. icao (origin fl) = k) g"

definition destinations_registered :: "network \<Rightarrow> bool" where
  "destinations_registered g = every_flight (\<lambda>k fl. in_airports g (icao (destination fl))) g"

definition durations_positive :: "network \<Rightarrow> bool" where
  "durations_positive g = every_flight (\<lambda>k fl. departure_time fl < arrival_time fl) g"

text \<open>
  A route is chain-adjacent when every flight lands at the airport (the code) the next
  one leaves from, and time-ordered when it lands no later than the next one leaves.
\<close>

fun chain_adjacent :: "flight list \<Rightarrow> bool" where
  "chain_adjacent (f1 # f2 # r) =
     (icao (destination f1) = icao (origin f2) \<and> chain_adjacent (f2 # r))"
| "chain_adjacent r = True"

fun time_ordered :: "flight list \<Rightarrow> bool" where
  "time_ordered (f1 # f2 # r) = (arrival_time f1 \<le> departure_time f2 \<and> time_ordered (f2 # r))"
| "time_ordered r = True"

text \<open>
  A route from \<open>a\<close> to \<open>b\<close> is a chain-adjacent sequence of stored flights that leaves
  from \<open>a\<close> and ends in \<open>b\<close> (the empty sequence when \<open>a = b\<close>); it is simple when the
  airports it visits, \<open>a\<close> and then every destination, are all different.
\<close>

definition stored :: "network \<Rightarrow> flight \<Rightarrow> bool" where
  "stored g fl = (fl \<in> set (flights_get g (icao (origin fl))))"

definition route_between :: "network \<Rightarrow> string \<Rightarrow> string \<Rightarrow> flight list \<Rightarrow> bool" where
  "route_between g a b r =
     (list_all (stored g) r \<and> chain_adjacent r
      \<and> (if r = [] then a = b
         else icao (origin (hd r)) = a \<and> icao (destination (last r)) = b))"

definition simple_route :: "string \<Rightarrow> flight list \<Rightarrow> bool" where
  "simple_route a r = distinct (a # map (\<lambda>fl. icao (destination fl)) r)"

text \<open>The summed flight time of a route, layovers excluded.\<close>

definition total_duration :: "flight list \<Rightarrow> int" where
  "total_duration r = sum_list (map get_duration r)"

text \<open>Two flight objects that agree on all seven attributes.\<close>

definition same_fields :: "flight \<Rightarrow> flight \<Rightarrow> bool" where
  "same_fields f f' =
     (flight_number f = flight_number f' \<and> airline_name f = airline_name f'
      \<and> airline_icao f = airline_icao f' \<and> origin f = origin f'
      \<and> destination f = destination f' \<and> departure_time f = departure_time f'
      \<and> arrival_time f = arrival_time f')"

section \<open>The enumeration without its accumulators\<close>

text \<open>
  The routes \<^verbatim>\<open>find_paths\<close> appends below one airport, each without the prefix
  \<^verbatim>\<open>paths\<close>, in the order in which they are appended.
\<close>

function routes_from :: "network \<Rightarrow> string \<Rightarrow> string \<Rightarrow> string set \<Rightarrow> flight list list"
  and routes_via :: "network \<Rightarrow> string \<Rightarrow> flight list \<Rightarrow> string set \<Rightarrow> flight list list"
where
  "routes_from g c t v =
     (if c = t then [[]] else routes_via g t (flights_get g c) (insert c v))"
| "routes_via g t [] v = []"
| "routes_via g t (fl # rest) v =
     (if icao (destination fl) \<notin> v
      then map ((#) fl) (routes_from g (icao (destination fl)) t v) else [])
     @ routes_via g t rest v"
  by pat_completeness auto
termination
proof (relation "inv_image (less_than <*lex*> less_than)
    (\<lambda>x. case x of
       Inl (g, c, t, v) \<Rightarrow>
         (card (dest_codes g - insert c v), Suc (length (flights_get g c)))
     | Inr (g, t, fs, v) \<Rightarrow>
         (card ((dest_codes g \<union> (\<lambda>f. icao (destination f)) ` set fs) - v), length fs))",
    goal_cases)
  case 1
  show ?case by (intro wf_inv_image wf_lex_prod wf_less_than)
next
  case (2 g c t v)
  have "(\<lambda>f. icao (destination f)) ` set (flights_get g c) \<subseteq> dest_codes g"
    using flights_get_dest_codes by auto
  then have "dest_codes g \<union> (\<lambda>f. icao (destination f)) ` set (flights_get g c) = dest_codes g"
    by auto
  then show ?case by simp
next
  case (3 g t fl rest v)
  then show ?case
    using card_dest_codes_less [of "icao (destination fl)" g
        "(\<lambda>f. icao (destination f)) ` set (fl # rest)" v]
    by simp
next
  case (4 g t fl rest v)
  have "card ((dest_codes g \<union> (\<lambda>f. icao (destination f)) ` set rest) - v)
      \<le> card ((dest_codes g \<union> (\<lambda>f. icao (destination f)) ` set (fl # rest)) - v)"
    by (rule card_mono) (auto simp: finite_dest_codes)
  then show ?case by auto
qed

text \<open>The recursive equations are unfolded by hand.\<close>

declare routes_from.simps [simp del]

declare find_paths.simps [simp del]

declare find_shortest_time_path.simps [simp del]

text \<open>
  A sequence of flights each of which is among the flights stored for the airport
  where the previous one lands, and the code where such a sequence ends.
\<close>

fun chain_from :: "network \<Rightarrow> string \<Rightarrow> flight list \<Rightarrow> bool" where
  "chain_from g c [] = True"
| "chain_from g c (fl # r) =
     (fl \<in> set (flights_get g c) \<and> chain_from g (icao (destination fl)) r)"

definition end_code :: "string \<Rightarrow> flight list \<Rightarrow> string" where
  "end_code c r = (if r = [] then c else icao (destination (last r)))"

text \<open>
  One comparison of the search for the shortest flight time: the suffix \<open>s\<close> completes
  the current path, and replaces the incumbent when it is strictly faster.
\<close>

definition improve :: "int \<Rightarrow> flight list \<Rightarrow> flight list \<Rightarrow> flight list \<times> int \<Rightarrow> flight list \<times> int" where
  "improve ct cf s best =
     (if ct + total_duration s < snd best then (cf @ s, ct + total_duration s) else best)"

definition incumbent_ok :: "flight list \<times> int \<Rightarrow> bool" where
  "incumbent_ok best = (fst best = [] \<longrightarrow> snd best = timedelta_max)"

section \<open>Example networks\<close>

text \<open>
  Three airports and the three flights AAAA to BBBB (10 to 12), BBBB to CCCC (13 to 15)
  and AAAA to CCCC (10 to 16); a second network in which the flight from BBBB leaves
  at 11, before the flight from AAAA lands. Further a second airport object with the
  code AAAA, a second flight object with the seven values of the flight from AAAA to
  BBBB, a flight from CCCC to BBBB, and flights from and to an airport DDDD that no
  network here holds. The network \<open>net_back\<close> has a direct flight from AAAA to CCCC of
  duration 1, listed before the flight to BBBB, and a flight from BBBB to CCCC that
  arrives 10 before it departs. The network \<open>net_aero\<close> has one flight, of an airline
  whose name has the small letter e with acute accent (code point 233) as its second
  character.
\<close>

definition mk_airport :: "string \<Rightarrow> string \<Rightarrow> airport" where
  "mk_airport code ctry =
     \<lparr>icao = code, name = code, city_iata = take 3 code, country = ctry,
      latitude = 0, longitude = 0\<rparr>"

definition mk_flight :: "nat \<Rightarrow> string \<Rightarrow> airport \<Rightarrow> airport \<Rightarrow> int \<Rightarrow> int \<Rightarrow> flight" where
  "mk_flight i al a b d t =
     \<lparr>ident = i, flight_number = ''F'', airline_name = al, airline_icao = ''XXX'',
      origin = a, destination = b, departure_time = d, arrival_time = t\<rparr>"

definition apA :: airport where "apA = mk_airport ''AAAA'' ''X''"

definition apB :: airport where "apB = mk_airport ''BBBB'' ''Y''"

definition apC :: airport where "apC = mk_airport ''CCCC'' ''Z''"

definition apA2 :: airport where "apA2 = mk_airport ''AAAA'' ''W''"

definition apD :: airport where "apD = mk_airport ''DDDD'' ''W''"

definition fl_ab :: flight where "fl_ab = mk_flight 1 ''Air One'' apA apB 10 12"

definition fl_bc :: flight where "fl_bc = mk_flight 2 ''Air Two'' apB apC 13 15"

definition fl_ac :: flight where "fl_ac = mk_flight 3 ''Air One'' apA apC 10 16"

definition fl_bc_early :: flight where "fl_bc_early = mk_flight 4 ''Air Two'' apB apC 11 13"

definition fl_ab_twin :: flight where "fl_ab_twin = mk_flight 5 ''Air One'' apA apB 10 12"

definition fl_da :: flight where "fl_da = mk_flight 6 ''Air One'' apD apA 1 2"

definition net3 :: network where
  "net3 = \<lparr>airports = [(''AAAA'', apA), (''BBBB'', apB), (''CCCC'', apC)],
           flights = [(''AAAA'', [fl_ab, fl_ac]), (''BBBB'', [fl_bc])]\<rparr>"

definition net_early :: network where
  "net_early = \<lparr>airports = [(''AAAA'', apA), (''BBBB'', apB), (''CCCC'', apC)],
           flights = [(''AAAA'', [fl_ab]), (''BBBB'', [fl_bc_early])]\<rparr>"

definition fl_ac_short :: flight where "fl_ac_short = mk_flight 8 ''Air One'' apA apC 10 11"

definition fl_bc_back :: flight where "fl_bc_back = mk_flight 9 ''Air Two'' apB apC 20 10"

definition fl_cb :: flight where "fl_cb = mk_flight 7 ''Air Two'' apC apB 20 22"

definition fl_bd :: flight where "fl_bd = mk_flight 10 ''Air One'' apB apD 1 2"

definition fl_ac_aero :: flight where
  "fl_ac_aero = mk_flight 11 [CHR ''A'', CHR 0xE9, CHR ''r'', CHR ''o''] apA apC 10 16"

definition net_back :: network where
  "net_back = \<lparr>airports = [(''AAAA'', apA), (''BBBB'', apB), (''CCCC'', apC)],
           flights = [(''AAAA'', [fl_ac_short, fl_ab]), (''BBBB'', [fl_bc_back])]\<rparr>"

definition net_aero :: network where
  "net_aero = \<lparr>airports = [(''AAAA'', apA), (''BBBB'', apB), (''CCCC'', apC)],
           flights = [(''AAAA'', [fl_ac_aero])]\<rparr>"

text \<open>
  A network as the loader builds it: first every airport, then every flight, each through
  the method of the class, whatever that method answers.
\<close>

fun build :: "airport list \<Rightarrow> flight list \<Rightarrow> network \<Rightarrow> network" where
  "build (a # as) fs g = build as fs (snd (add_airport g a))"
| "build [] (f # fs) g = build [] fs (snd (add_flight g f))"
| "build [] [] g = g"

section \<open>Properties of the enumeration\<close>

lemma every_flightD:
  assumes "every_flight P g" and "fl \<in> set (flights_get g c)"
  shows "P c fl"
proof -
  from assms(2) obtain fs where m: "map_of (flights g) c = Some fs" and f: "fl \<in> set fs"
    by (cases "map_of (flights g) c") (auto simp: flights_get_def)
  from m have "(c, fs) \<in> set (flights g)" by (rule map_of_SomeD)
  with assms(1) f show ?thesis by (auto simp: every_flight_def list_all_iff)
qed

lemma find_paths_routes:
  "find_paths g c t p v a = a @ map ((@) p) (routes_from g c t v)"
  "find_paths_loop g t fs p v a = a @ map ((@) p) (routes_via g t fs v)"
proof (induction g c t p v a and g t fs p v a rule: find_paths_find_paths_loop.induct)
  case (1 g c t p v a)
  then show ?case by (simp add: find_paths.simps routes_from.simps)
next
  case (2 g t p v a)
  then show ?case by simp
next
  case (3 g t fl rest p v a)
  then show ?case by (simp add: comp_def)
qed

lemma set_routes_via:
  "set (routes_via g t fs v) =
     {fl # r | fl r. fl \<in> set fs \<and> icao (destination fl) \<notin> v
        \<and> r \<in> set (routes_from g (icao (destination fl)) t v)}"
  by (induction fs) auto

lemma routes_from_sound:
  "r \<in> set (routes_from g c t v) \<Longrightarrow>
     chain_from g c r \<and> distinct (c # map (\<lambda>f. icao (destination f)) r)
     \<and> (\<lambda>f. icao (destination f)) ` set r \<inter> v = {} \<and> end_code c r = t"
  "r \<in> set (routes_via g t fs v) \<Longrightarrow>
     (\<exists>fl r'. r = fl # r' \<and> fl \<in> set fs \<and> chain_from g (icao (destination fl)) r'
        \<and> distinct (map (\<lambda>f. icao (destination f)) r)
        \<and> (\<lambda>f. icao (destination f)) ` set r \<inter> v = {} \<and> end_code (icao (destination fl)) r' = t)"
proof (induction g c t v and g t fs v arbitrary: r and r rule: routes_from_routes_via.induct)
  case (1 g c t v)
  show ?case
  proof (cases "c = t")
    case True
    with 1 show ?thesis by (simp add: end_code_def routes_from.simps)
  next
    case False
    with 1(2) have "r \<in> set (routes_via g t (flights_get g c) (insert c v))"
      by (simp add: routes_from.simps)
    from 1(1)[OF False this] show ?thesis by (auto simp: end_code_def)
  qed
next
  case (2 g t v)
  then show ?case by simp
next
  case (3 g t fl rest v)
  from 3(3) consider
    (a) "icao (destination fl) \<notin> v" "r \<in> (#) fl ` set (routes_from g (icao (destination fl)) t v)"
    | (b) "r \<in> set (routes_via g t rest v)"
    by (auto split: if_splits)
  then show ?case
  proof cases
    case a
    then obtain r' where r: "r = fl # r'" and m: "r' \<in> set (routes_from g (icao (destination fl)) t v)"
      by auto
    from 3(1)[OF a(1) m] a(1) r show ?thesis by auto
  next
    case b
    from 3(2)[OF b] show ?thesis by auto
  qed
qed

lemma routes_from_complete:
  "chain_from g c r \<Longrightarrow> distinct (c # map (\<lambda>f. icao (destination f)) r) \<Longrightarrow>
   (\<lambda>f. icao (destination f)) ` set r \<inter> v = {} \<Longrightarrow> end_code c r = t \<Longrightarrow>
   r \<in> set (routes_from g c t v)"
proof (induction r arbitrary: c v)
  case Nil
  then show ?case by (simp add: end_code_def routes_from.simps)
next
  case (Cons fl r)
  have ne: "c \<noteq> t"
  proof
    assume "c = t"
    with Cons.prems(4) have "icao (destination (last (fl # r))) = c" by (simp add: end_code_def)
    moreover have "last (fl # r) \<in> set (fl # r)" by (rule last_in_set) simp
    ultimately have "c \<in> (\<lambda>f. icao (destination f)) ` set (fl # r)" by force
    with Cons.prems(2) show False by auto
  qed
  have e: "end_code (icao (destination fl)) r = t"
    using Cons.prems(4) by (auto simp: end_code_def)
  have "r \<in> set (routes_from g (icao (destination fl)) t (insert c v))"
    using Cons.prems e by (intro Cons.IH) auto
  moreover have "fl \<in> set (flights_get g c)" "icao (destination fl) \<notin> insert c v"
    using Cons.prems by auto
  ultimately have "fl # r \<in> set (routes_via g t (flights_get g c) (insert c v))"
    unfolding set_routes_via by blast
  with ne show ?case by (simp add: routes_from.simps)
qed

lemma chain_from_route:
  "flights_keyed g \<Longrightarrow> chain_from g a r \<Longrightarrow>
     list_all (stored g) r \<and> chain_adjacent r \<and> (r \<noteq> [] \<longrightarrow> icao (origin (hd r)) = a)"
proof (induction r arbitrary: a)
  case Nil
  show ?case by simp
next
  case (Cons fl r)
  from Cons.prems have m: "fl \<in> set (flights_get g a)" and c: "chain_from g (icao (destination fl)) r"
    by simp_all
  from Cons.prems(1) m have o: "icao (origin fl) = a"
    unfolding flights_keyed_def by (rule every_flightD)
  from Cons.IH [OF Cons.prems(1) c] have ih: "list_all (stored g) r" "chain_adjacent r"
    "r \<noteq> [] \<longrightarrow> icao (origin (hd r)) = icao (destination fl)" by simp_all
  have "chain_adjacent (fl # r)" using ih(2,3) by (cases r) simp_all
  moreover have "stored g fl" using m o by (simp add: stored_def)
  ultimately show ?case using o ih(1) by simp
qed

lemma route_chain_from:
  "list_all (stored g) r \<Longrightarrow> chain_adjacent r \<Longrightarrow> (r \<noteq> [] \<longrightarrow> icao (origin (hd r)) = a) \<Longrightarrow>
     chain_from g a r"
proof (induction r arbitrary: a)
  case Nil
  show ?case by simp
next
  case (Cons fl r)
  have "chain_from g (icao (destination fl)) r"
    using Cons.prems by (intro Cons.IH) (cases r; simp)+
  moreover have "fl \<in> set (flights_get g a)" using Cons.prems by (simp add: stored_def)
  ultimately show ?case by simp
qed

lemma route_between_iff:
  assumes "flights_keyed g"
  shows "route_between g a b r \<longleftrightarrow> chain_from g a r \<and> end_code a r = b"
proof
  assume "route_between g a b r"
  then show "chain_from g a r \<and> end_code a r = b"
    using route_chain_from [of g r a] by (auto simp: route_between_def end_code_def split: if_splits)
next
  assume "chain_from g a r \<and> end_code a r = b"
  then show "route_between g a b r"
    using chain_from_route [OF assms, of a r] by (auto simp: route_between_def end_code_def)
qed

lemma find_all_routes_eq:
  "in_airports g a \<Longrightarrow> in_airports g b \<Longrightarrow> find_all_routes g a b = Inr (routes_from g a b {})"
  by (simp add: find_all_routes_def find_paths_routes(1) map_idI)

lemma set_routes_from:
  assumes "flights_keyed g"
  shows "r \<in> set (routes_from g a b {}) \<longleftrightarrow> route_between g a b r \<and> simple_route a r"
  unfolding route_between_iff [OF assms] simple_route_def
  using routes_from_sound(1) [of r g a b "{}"] routes_from_complete [of g a r "{}" b]
  by auto

lemma net3_routes_ac: "find_all_routes net3 ''AAAA'' ''CCCC'' = Inr [[fl_ab, fl_bc], [fl_ac]]"
  by code_simp

lemma net3_routes_ca: "find_all_routes net3 ''CCCC'' ''AAAA'' = Inr []"
  by code_simp

lemma net3_ok:
  "in_airports net3 ''AAAA''" "in_airports net3 ''CCCC''" "flights_keyed net3"
  "destinations_registered net3" "durations_positive net3"
  by code_simp+

lemma net_early_ok:
  "in_airports net_early ''AAAA''" "in_airports net_early ''CCCC''" "flights_keyed net_early"
  "destinations_registered net_early" "durations_positive net_early"
  by code_simp+

lemma net3_built: "build [apA, apB, apC] [fl_ab, fl_ac, fl_bc] init_network = net3"
  by code_simp

lemma net_early_built: "build [apA, apB, apC] [fl_ab, fl_bc_early] init_network = net_early"
  by code_simp

lemma no_route_ca: "\<not> route_between net3 ''CCCC'' ''AAAA'' r"
proof
  assume r: "route_between net3 ''CCCC'' ''AAAA'' r"
  show False
  proof (cases r)
    case Nil
    with r show False by (simp add: route_between_def)
  next
    case (Cons fl r')
    with r have "stored net3 fl" "icao (origin fl) = ''CCCC''"
      by (simp_all add: route_between_def)
    then show False by (simp add: stored_def flights_get_def net3_def)
  qed
qed

text \<open>
  C1, as the code has it. For a network whose flights are stored under their origin's
  code and two registered codes \<open>a\<close> and \<open>b\<close>, \<^verbatim>\<open>find_all_routes\<close> returns, and every
  route it returns is a chain-adjacent sequence of stored flights that leaves from \<open>a\<close>,
  ends in \<open>b\<close> and visits no airport twice. Nothing is said about departure and arrival
  times: the enumeration never reads them.
\<close>

theorem find_all_routes_sound:
  assumes "in_airports g a" and "in_airports g b" and "flights_keyed g"
  shows "\<exists>routes. find_all_routes g a b = Inr routes
           \<and> (\<forall>r\<in>set routes. route_between g a b r \<and> simple_route a r)"
  using assms by (simp add: find_all_routes_eq set_routes_from)

text \<open>Witness for C1: the two routes from AAAA to CCCC in \<open>net3\<close>.\<close>

theorem find_all_routes_sound_witness:
  "find_all_routes net3 ''AAAA'' ''CCCC'' = Inr [[fl_ab, fl_bc], [fl_ac]]
   \<and> route_between net3 ''AAAA'' ''CCCC'' [fl_ab, fl_bc] \<and> simple_route ''AAAA'' [fl_ab, fl_bc]
   \<and> route_between net3 ''AAAA'' ''CCCC'' [fl_ac] \<and> simple_route ''AAAA'' [fl_ac]"
  using find_all_routes_sound [OF net3_ok(1) net3_ok(2) net3_ok(3)]
  by (simp add: net3_routes_ac)

text \<open>
  C1 as stated fails on time-ordering: in \<open>net_early\<close>, which satisfies every documented
  invariant, the only route from AAAA to CCCC lands in BBBB at 12 and leaves it at 11.
\<close>

theorem find_all_routes_time_counterexample:
  "in_airports net_early ''AAAA'' \<and> in_airports net_early ''CCCC'' \<and> flights_keyed net_early
   \<and> destinations_registered net_early \<and> durations_positive net_early
   \<and> find_all_routes net_early ''AAAA'' ''CCCC'' = Inr [[fl_ab, fl_bc_early]]
   \<and> \<not> time_ordered [fl_ab, fl_bc_early]"
proof -
  have "find_all_routes net_early ''AAAA'' ''CCCC'' = Inr [[fl_ab, fl_bc_early]]"
    by code_simp
  moreover have "\<not> time_ordered [fl_ab, fl_bc_early]"
    by (simp add: fl_ab_def fl_bc_early_def mk_flight_def)
  ultimately show ?thesis using net_early_ok by simp
qed

text \<open>
  C2. For a network whose flights are stored under their origin's code and registered
  codes \<open>a\<close> and \<open>b\<close>, every simple route from \<open>a\<close> to \<open>b\<close> that is chain-adjacent and
  time-ordered is in the list \<^verbatim>\<open>find_all_routes\<close> returns, and the list is empty when
  no route leads from \<open>a\<close> to \<open>b\<close>.
\<close>

theorem find_all_routes_complete:
  assumes "in_airports g a" and "in_airports g b" and "flights_keyed g"
  shows "\<exists>routes. find_all_routes g a b = Inr routes
           \<and> (route_between g a b r \<and> time_ordered r \<and> simple_route a r \<longrightarrow> r \<in> set routes)
           \<and> ((\<forall>r'. \<not> route_between g a b r') \<longrightarrow> routes = [])"
proof -
  have "(\<forall>r'. \<not> route_between g a b r') \<longrightarrow> routes_from g a b {} = []"
  proof
    assume n: "\<forall>r'. \<not> route_between g a b r'"
    show "routes_from g a b {} = []"
    proof (cases "routes_from g a b {}")
      case Nil
      then show ?thesis .
    next
      case (Cons r rs)
      then have "r \<in> set (routes_from g a b {})" by simp
      with n show ?thesis by (simp add: set_routes_from [OF assms(3)])
    qed
  qed
  then show ?thesis using assms by (simp add: find_all_routes_eq set_routes_from)
qed

text \<open>
  Witness for C2: the two-leg route of \<open>net3\<close> is found, and nothing leads from CCCC
  back to AAAA.
\<close>

theorem find_all_routes_complete_witness:
  "route_between net3 ''AAAA'' ''CCCC'' [fl_ab, fl_bc] \<and> time_ordered [fl_ab, fl_bc]
   \<and> simple_route ''AAAA'' [fl_ab, fl_bc]
   \<and> (\<exists>routes. find_all_routes net3 ''AAAA'' ''CCCC'' = Inr routes \<and> [fl_ab, fl_bc] \<in> set routes)
   \<and> (\<forall>r'. \<not> route_between net3 ''CCCC'' ''AAAA'' r')
   \<and> find_all_routes net3 ''CCCC'' ''AAAA'' = Inr []"
proof -
  have p: "route_between net3 ''AAAA'' ''CCCC'' [fl_ab, fl_bc]" "time_ordered [fl_ab, fl_bc]"
    "simple_route ''AAAA'' [fl_ab, fl_bc]"
    by code_simp+
  from find_all_routes_complete [OF net3_ok(1) net3_ok(2) net3_ok(3), of "[fl_ab, fl_bc]"] p
  have 1: "\<exists>routes. find_all_routes net3 ''AAAA'' ''CCCC'' = Inr routes \<and> [fl_ab, fl_bc] \<in> set routes"
    by auto
  from find_all_routes_complete [OF net3_ok(2) net3_ok(1) net3_ok(3), of "[]"] no_route_ca
  have 2: "find_all_routes net3 ''CCCC'' ''AAAA'' = Inr []"
    by auto
  from p 1 2 no_route_ca show ?thesis by blast
qed

section \<open>Properties of the search for the shortest flight time\<close>

lemma fold_improve_cases:
  "fold (improve ct cf) sufs best = best \<or> snd (fold (improve ct cf) sufs best) < snd best"
proof (induction sufs arbitrary: best)
  case Nil
  show ?case by simp
next
  case (Cons s sufs)
  from Cons.IH [of "improve ct cf s best"] show ?case
    by (auto simp: improve_def split: if_splits)
qed

lemma fold_improve_ok:
  "incumbent_ok best \<Longrightarrow> (\<forall>s\<in>set sufs. cf @ s \<noteq> []) \<Longrightarrow>
   incumbent_ok (fold (improve ct cf) sufs best)"
proof (induction sufs arbitrary: best)
  case Nil
  then show ?case by simp
next
  case (Cons s sufs)
  have "incumbent_ok (improve ct cf s best)"
    using Cons.prems by (auto simp: improve_def incumbent_ok_def)
  with Cons show ?case by simp
qed

lemma fold_improve_id:
  "(\<forall>s\<in>set sufs. snd best \<le> ct + total_duration s) \<Longrightarrow> fold (improve ct cf) sufs best = best"
  by (induction sufs) (auto simp: improve_def)

lemma fold_improve_shift:
  "fold (improve ct cf) (map ((#) fl) sufs) best
     = fold (improve (ct + get_duration fl) (cf @ [fl])) sufs best"
proof -
  have "improve ct cf \<circ> (#) fl = improve (ct + get_duration fl) (cf @ [fl])"
    by (rule ext)+ (simp add: improve_def total_duration_def add.assoc)
  then show ?thesis by (simp add: fold_map)
qed

lemma fold_improve_best:
  "fold (improve ct cf) sufs best = res \<Longrightarrow>
     (res = best \<and> (\<forall>s\<in>set sufs. snd best \<le> ct + total_duration s))
   \<or> (\<exists>s\<in>set sufs. res = (cf @ s, ct + total_duration s)) \<and> snd res < snd best
        \<and> (\<forall>s\<in>set sufs. snd res \<le> ct + total_duration s)"
proof (induction sufs arbitrary: best)
  case Nil
  then show ?case by simp
next
  case (Cons s sufs)
  let ?b = "improve ct cf s best"
  from Cons.prems have f: "fold (improve ct cf) sufs ?b = res" by simp
  from Cons.IH [OF f] show ?case
  proof
    assume a: "res = ?b \<and> (\<forall>s\<in>set sufs. snd ?b \<le> ct + total_duration s)"
    show ?thesis
    proof (cases "ct + total_duration s < snd best")
      case True
      with a show ?thesis by (auto simp: improve_def)
    next
      case False
      with a show ?thesis by (auto simp: improve_def)
    qed
  next
    assume a: "(\<exists>s\<in>set sufs. res = (cf @ s, ct + total_duration s)) \<and> snd res < snd ?b
        \<and> (\<forall>s\<in>set sufs. snd res \<le> ct + total_duration s)"
    have "snd ?b \<le> snd best" "snd ?b \<le> ct + total_duration s"
      by (auto simp: improve_def)
    with a show ?thesis by auto
  qed
qed

lemma chain_from_durations:
  "durations_positive g \<Longrightarrow> chain_from g c r \<Longrightarrow> 0 \<le> total_duration r"
proof (induction r arbitrary: c)
  case Nil
  show ?case by (simp add: total_duration_def)
next
  case (Cons fl r)
  from Cons.prems have "fl \<in> set (flights_get g c)" by simp
  with Cons.prems(1) have "departure_time fl < arrival_time fl"
    unfolding durations_positive_def by (rule every_flightD)
  moreover have "0 \<le> total_duration r" using Cons by auto
  ultimately show ?case by (simp add: total_duration_def get_duration_def)
qed

lemma routes_from_durations:
  "durations_positive g \<Longrightarrow> r \<in> set (routes_from g c t v) \<Longrightarrow> 0 \<le> total_duration r"
  using routes_from_sound(1) chain_from_durations by blast

lemma fstp_fold:
  "in_airports g s \<Longrightarrow> in_airports g e \<Longrightarrow> destinations_registered g \<Longrightarrow>
   durations_positive g \<Longrightarrow> incumbent_ok (or_default ([], timedelta_max) bp) \<Longrightarrow>
   find_shortest_time_path g s e v ct cf bp
     = Inr (fold (improve ct (or_default [] cf)) (routes_from g s e (or_default {} v))
              (or_default ([], timedelta_max) bp))"
  "in_airports g e \<Longrightarrow> destinations_registered g \<Longrightarrow> durations_positive g \<Longrightarrow>
   (\<forall>fl\<in>set fs. in_airports g (icao (destination fl)) \<and> departure_time fl < arrival_time fl) \<Longrightarrow>
   incumbent_ok best \<Longrightarrow>
   find_shortest_time_path_loop g e fs w ct cfl best
     = Inr (fold (improve ct cfl) (routes_via g e fs w) best)"
proof (induction g s e v ct cf bp and g e fs w ct cfl best
    rule: find_shortest_time_path_find_shortest_time_path_loop.induct)
  case (1 g s e v ct cf bp)
  show ?case
  proof (cases "s = e")
    case True
    with 1(2,3) show ?thesis
      by (simp add: improve_def total_duration_def find_shortest_time_path.simps
          routes_from.simps)
  next
    case False
    let ?fs = "flights_get g s"
    let ?v = "insert s (or_default {} v)"
    let ?best = "or_default ([], timedelta_max) bp"
    have fs: "\<forall>fl\<in>set ?fs. in_airports g (icao (destination fl)) \<and> departure_time fl < arrival_time fl"
      using every_flightD [OF 1(4) [unfolded destinations_registered_def]]
        every_flightD [OF 1(5) [unfolded durations_positive_def]] by blast
    have l: "find_shortest_time_path_loop g e ?fs ?v ct (or_default [] cf) ?best
        = Inr (fold (improve ct (or_default [] cf)) (routes_via g e ?fs ?v) ?best)"
      using 1(1) [OF _ _ False 1(3) 1(4) 1(5) fs 1(6)] 1(2,3) by simp
    have ne: "\<forall>r\<in>set (routes_via g e ?fs ?v). or_default [] cf @ r \<noteq> []"
      by (auto simp: set_routes_via)
    have ok: "incumbent_ok (fold (improve ct (or_default [] cf)) (routes_via g e ?fs ?v) ?best)"
      using 1(6) ne by (rule fold_improve_ok)
    have t: "fst (fold (improve ct (or_default [] cf)) (routes_via g e ?fs ?v) ?best) = [] \<Longrightarrow>
       fold (improve ct (or_default [] cf)) (routes_via g e ?fs ?v) ?best = ([], timedelta_max)"
      using ok unfolding incumbent_ok_def by (metis prod.collapse)
    show ?thesis using False 1(2,3) l t
      by (auto simp: find_shortest_time_path.simps [of g s e] routes_from.simps [of g s e])
  qed
next
  case (2 g e w ct cfl best)
  show ?case by simp
next
  case (3 g e fl rest w ct cfl best)
  have rest: "\<forall>fl\<in>set rest. in_airports g (icao (destination fl)) \<and> departure_time fl < arrival_time fl"
    using 3(8) by simp
  have reg: "in_airports g (icao (destination fl))" and pos: "departure_time fl < arrival_time fl"
    using 3(8) by simp_all
  show ?case
  proof (cases "icao (destination fl) \<notin> w")
    case False
    then show ?thesis using 3(4) [OF _ 3(5) 3(6) 3(7) rest 3(9)] by simp
  next
    case True
    let ?R = "routes_from g (icao (destination fl)) e w"
    show ?thesis
    proof (cases "ct + get_duration fl < snd best")
      case False
      have "\<forall>r\<in>set (map ((#) fl) ?R). snd best \<le> ct + total_duration r"
      proof
        fix r assume "r \<in> set (map ((#) fl) ?R)"
        then obtain r' where r: "r = fl # r'" and m: "r' \<in> set ?R" by auto
        from routes_from_durations [OF 3(7) m] have "0 \<le> total_duration r'" .
        with False r show "snd best \<le> ct + total_duration r"
          by (simp add: total_duration_def)
      qed
      then have "fold (improve ct cfl) (map ((#) fl) ?R) best = best"
        by (rule fold_improve_id)
      then show ?thesis using True False 3(3) [OF True False 3(5) 3(6) 3(7) rest 3(9)] by simp
    next
      case lt: True
      let ?found = "fold (improve (ct + get_duration fl) (cfl @ [fl])) ?R best"
      have rc: "find_shortest_time_path g (icao (destination fl)) e (Some w)
          (ct + get_duration fl) (Some (cfl @ [fl])) (Some best) = Inr ?found"
        using 3(1) [OF True lt reg 3(5) 3(6) 3(7)] 3(9) by (simp add: or_default_def)
      have ok: "incumbent_ok ?found"
        using 3(9) by (rule fold_improve_ok) simp
      have upd: "(if snd ?found < snd best then ?found else best) = ?found"
        using fold_improve_cases [of "ct + get_duration fl" "cfl @ [fl]" ?R best] by auto
      have "find_shortest_time_path_loop g e rest w ct cfl ?found
          = Inr (fold (improve ct cfl) (routes_via g e rest w) ?found)"
        using 3(2) [OF True lt rc 3(5) 3(6) 3(7) rest] ok upd by simp
      then show ?thesis using True lt rc upd by (simp add: fold_improve_shift)
    qed
  qed
qed

lemma find_shortest_time_path_eq:
  assumes "in_airports g a" and "in_airports g b" and "destinations_registered g"
    and "durations_positive g"
  shows "find_shortest_time_path g a b None 0 None None
           = Inr (fold (improve 0 []) (routes_from g a b {}) ([], timedelta_max))"
  using fstp_fold(1) [where v = None and ct = 0 and cf = None and bp = None, OF assms]
  by (simp add: or_default_def incumbent_ok_def)

lemma net3_shortest_time:
  "find_shortest_time_path net3 ''AAAA'' ''CCCC'' None 0 None None = Inr ([fl_ab, fl_bc], 4)"
  by code_simp

lemma net3_shortest_time_ca:
  "find_shortest_time_path net3 ''CCCC'' ''AAAA'' None 0 None None = Inr ([], timedelta_max)"
  by code_simp

lemma fstp_returns:
  "in_airports g s \<Longrightarrow> in_airports g e \<Longrightarrow> destinations_registered g \<Longrightarrow>
     (\<exists>res. find_shortest_time_path g s e v ct cf bp = Inr res)
   \<and> (incumbent_ok (or_default ([], timedelta_max) bp)
        \<and> routes_from g s e (or_default {} v) = [] \<longrightarrow>
       find_shortest_time_path g s e v ct cf bp = Inr (or_default ([], timedelta_max) bp))"
  "in_airports g e \<Longrightarrow> destinations_registered g \<Longrightarrow>
   (\<forall>fl\<in>set fs. in_airports g (icao (destination fl))) \<Longrightarrow>
     (\<exists>res. find_shortest_time_path_loop g e fs w ct cfl best = Inr res)
   \<and> (incumbent_ok best \<and> routes_via g e fs w = [] \<longrightarrow>
       find_shortest_time_path_loop g e fs w ct cfl best = Inr best)"
proof (induction g s e v ct cf bp and g e fs w ct cfl best
    rule: find_shortest_time_path_find_shortest_time_path_loop.induct)
  case (1 g s e v ct cf bp)
  show ?case
  proof (cases "s = e")
    case True
    with 1(2,3) show ?thesis
      by (simp add: find_shortest_time_path.simps routes_from.simps)
  next
    case False
    let ?fs = "flights_get g s"
    let ?v = "insert s (or_default {} v)"
    let ?best = "or_default ([], timedelta_max) bp"
    have fs: "\<forall>fl\<in>set ?fs. in_airports g (icao (destination fl))"
      using every_flightD [OF 1(4) [unfolded destinations_registered_def]] by blast
    note ih = 1(1) [OF _ _ False 1(3) 1(4) fs]
    from ih 1(2,3) obtain res where
      l: "find_shortest_time_path_loop g e ?fs ?v ct (or_default [] cf) ?best = Inr res"
      by auto
    have ex: "\<exists>res. find_shortest_time_path g s e v ct cf bp = Inr res"
      using False 1(2,3) l by (simp add: find_shortest_time_path.simps [of g s e])
    have none: "find_shortest_time_path g s e v ct cf bp = Inr ?best"
      if ok: "incumbent_ok ?best" and r: "routes_from g s e (or_default {} v) = []"
    proof -
      from r False have "routes_via g e ?fs ?v = []" by (simp add: routes_from.simps)
      with ih ok 1(2,3)
      have "find_shortest_time_path_loop g e ?fs ?v ct (or_default [] cf) ?best = Inr ?best"
        by auto
      moreover have "(if fst ?best \<noteq> [] then ?best else ([], timedelta_max)) = ?best"
        using ok unfolding incumbent_ok_def by (metis prod.collapse)
      ultimately show ?thesis
        using False 1(2,3) by (simp add: find_shortest_time_path.simps [of g s e])
    qed
    from ex none show ?thesis by blast
  qed
next
  case (2 g e w ct cfl best)
  show ?case by simp
next
  case (3 g e fl rest w ct cfl best)
  have rest: "\<forall>fl\<in>set rest. in_airports g (icao (destination fl))"
    using 3(7) by simp
  have reg: "in_airports g (icao (destination fl))"
    using 3(7) by simp
  show ?case
  proof (cases "icao (destination fl) \<notin> w")
    case False
    then show ?thesis using 3(4) [OF _ 3(5) 3(6) rest] by simp
  next
    case True
    show ?thesis
    proof (cases "ct + get_duration fl < snd best")
      case False
      have "routes_via g e (fl # rest) w = [] \<Longrightarrow> routes_via g e rest w = []" by simp
      then show ?thesis using True False 3(3) [OF True False 3(5) 3(6) rest] by auto
    next
      case lt: True
      note ih1 = 3(1) [OF True lt reg 3(5) 3(6)]
      from ih1 obtain found where
        rc: "find_shortest_time_path g (icao (destination fl)) e (Some w)
          (ct + get_duration fl) (Some (cfl @ [fl])) (Some best) = Inr found"
        by blast
      note ih2 = 3(2) [OF True lt rc 3(5) 3(6) rest]
      have ex: "\<exists>res. find_shortest_time_path_loop g e (fl # rest) w ct cfl best = Inr res"
        using True lt rc ih2 by simp
      have none: "find_shortest_time_path_loop g e (fl # rest) w ct cfl best = Inr best"
        if ok: "incumbent_ok best" and r: "routes_via g e (fl # rest) w = []"
      proof -
        from r True have r1: "routes_from g (icao (destination fl)) e w = []"
          and r2: "routes_via g e rest w = []" by simp_all
        from ih1 ok r1 have "find_shortest_time_path g (icao (destination fl)) e (Some w)
          (ct + get_duration fl) (Some (cfl @ [fl])) (Some best) = Inr best"
          by (simp add: or_default_def)
        with rc have "found = best" by simp
        with ih2 ok r2 True lt rc show ?thesis by simp
      qed
      from ex none show ?thesis by blast
    qed
  qed
qed

lemma find_shortest_time_path_returns:
  assumes "in_airports g a" and "in_airports g b" and "destinations_registered g"
  shows "\<exists>res. find_shortest_time_path g a b None 0 None None = Inr res"
    and "routes_from g a b {} = [] \<Longrightarrow>
           find_shortest_time_path g a b None 0 None None = Inr ([], timedelta_max)"
  using fstp_returns(1) [where v = None and ct = 0 and cf = None and bp = None, OF assms]
  by (simp_all add: or_default_def incumbent_ok_def)

lemma net_back_built:
  "build [apA, apB, apC] [fl_ac_short, fl_ab, fl_bc_back] init_network = net_back"
  by code_simp

lemma net_back_ok:
  "in_airports net_back ''AAAA''" "in_airports net_back ''CCCC''" "flights_keyed net_back"
  "destinations_registered net_back" "\<not> durations_positive net_back"
  by code_simp+

lemma net_back_routes:
  "find_all_routes net_back ''AAAA'' ''CCCC'' = Inr [[fl_ac_short], [fl_ab, fl_bc_back]]"
  by code_simp

lemma net_back_shortest_time:
  "find_shortest_time_path net_back ''AAAA'' ''CCCC'' None 0 None None = Inr ([fl_ac_short], 1)"
  by code_simp

lemma net_back_durations:
  "total_duration [fl_ac_short] = 1" "total_duration [fl_ab, fl_bc_back] = - 8"
  by code_simp+

text \<open>
  C3, as the code has it. For a network whose stored flights all land at registered
  airports and registered codes \<open>a\<close> and \<open>b\<close>, \<^verbatim>\<open>find_shortest_time_path(a, b)\<close> returns;
  when \<^verbatim>\<open>find_all_routes(a, b)\<close> is empty it returns the empty route with
  \<^verbatim>\<open>timedelta.max\<close>. When moreover every stored flight departs before it arrives, the
  route returned has a summed flight time of at most that of every route of
  \<^verbatim>\<open>find_all_routes(a, b)\<close>; it is one of these routes and the time returned is its summed
  flight time, unless no route is faster than \<^verbatim>\<open>timedelta.max\<close>.
\<close>

theorem find_shortest_time_path_minimal:
  assumes "in_airports g a" and "in_airports g b" and "destinations_registered g"
  shows "\<exists>route t routes.
           find_shortest_time_path g a b None 0 None None = Inr (route, t)
         \<and> find_all_routes g a b = Inr routes
         \<and> (routes = [] \<longrightarrow> route = [] \<and> t = timedelta_max)
         \<and> (durations_positive g \<longrightarrow>
               (\<forall>r\<in>set routes. total_duration route \<le> total_duration r)
             \<and> (route \<in> set routes \<and> t = total_duration route
                   \<and> (\<forall>r\<in>set routes. t \<le> total_duration r)
                 \<or> route = [] \<and> t = timedelta_max
                   \<and> (\<forall>r\<in>set routes. timedelta_max \<le> total_duration r)))"
proof -
  let ?routes = "routes_from g a b {}"
  from find_shortest_time_path_returns(1) [OF assms] obtain route t where
    res: "find_shortest_time_path g a b None 0 None None = Inr (route, t)"
    by (metis prod.collapse)
  have e: "?routes = [] \<longrightarrow> route = [] \<and> t = timedelta_max"
    using find_shortest_time_path_returns(2) [OF assms] res by auto
  have m: "(\<forall>r\<in>set ?routes. total_duration route \<le> total_duration r)
             \<and> (route \<in> set ?routes \<and> t = total_duration route
                   \<and> (\<forall>r\<in>set ?routes. t \<le> total_duration r)
                 \<or> route = [] \<and> t = timedelta_max
                   \<and> (\<forall>r\<in>set ?routes. timedelta_max \<le> total_duration r))"
    if d: "durations_positive g"
  proof -
    have f: "fold (improve 0 []) ?routes ([], timedelta_max) = (route, t)"
      using find_shortest_time_path_eq [OF assms d] res by simp
    have nonneg: "\<forall>r\<in>set ?routes. 0 \<le> total_duration r"
      using routes_from_durations [OF d] by blast
    from fold_improve_best [OF f] have
      c: "(route = [] \<and> t = timedelta_max \<and> (\<forall>r\<in>set ?routes. timedelta_max \<le> total_duration r))
        \<or> (route \<in> set ?routes \<and> t = total_duration route
            \<and> (\<forall>r\<in>set ?routes. t \<le> total_duration r))"
      by auto
    have "\<forall>r\<in>set ?routes. total_duration route \<le> total_duration r"
      using c nonneg by (auto simp: total_duration_def)
    with c show ?thesis by blast
  qed
  show ?thesis
    using res find_all_routes_eq [OF assms(1,2)] e m by auto
qed

text \<open>
  Witness for C3: in \<open>net3\<close> the two-leg route (4 time units in the air) beats the direct
  flight (6), and nothing leads from CCCC back to AAAA.
\<close>

theorem find_shortest_time_path_minimal_witness:
  "durations_positive net3
   \<and> find_shortest_time_path net3 ''AAAA'' ''CCCC'' None 0 None None = Inr ([fl_ab, fl_bc], 4)
   \<and> find_all_routes net3 ''AAAA'' ''CCCC'' = Inr [[fl_ab, fl_bc], [fl_ac]]
   \<and> total_duration [fl_ab, fl_bc] \<le> total_duration [fl_ab, fl_bc]
   \<and> total_duration [fl_ab, fl_bc] \<le> total_duration [fl_ac]
   \<and> find_all_routes net3 ''CCCC'' ''AAAA'' = Inr []
   \<and> find_shortest_time_path net3 ''CCCC'' ''AAAA'' None 0 None None = Inr ([], timedelta_max)"
  using find_shortest_time_path_minimal [OF net3_ok(1) net3_ok(2) net3_ok(4)]
    find_shortest_time_path_minimal [OF net3_ok(2) net3_ok(1) net3_ok(4)] net3_ok(5)
  by (simp add: net3_routes_ac net3_routes_ca net3_shortest_time net3_shortest_time_ca)

text \<open>
  C3 as stated fails on a flight that arrives before it departs, which neither the
  constructor of \<^verbatim>\<open>Flight\<close> nor \<^verbatim>\<open>add_flight\<close> refuses: in \<open>net_back\<close>, built by the two
  methods, the direct flight is found first with flight time 1; the flight to BBBB
  then has an accumulated time of 2, which is not below 1, so the branch is cut, though
  the route through BBBB has a summed flight time of -8.
\<close>

theorem find_shortest_time_path_counterexample:
  "in_airports net_back ''AAAA'' \<and> in_airports net_back ''CCCC''
   \<and> flights_keyed net_back \<and> destinations_registered net_back
   \<and> build [apA, apB, apC] [fl_ac_short, fl_ab, fl_bc_back] init_network = net_back
   \<and> find_all_routes net_back ''AAAA'' ''CCCC'' = Inr [[fl_ac_short], [fl_ab, fl_bc_back]]
   \<and> find_shortest_time_path net_back ''AAAA'' ''CCCC'' None 0 None None
       = Inr ([fl_ac_short], 1)
   \<and> total_duration [fl_ac_short] = 1 \<and> total_duration [fl_ab, fl_bc_back] = - 8
   \<and> \<not> total_duration [fl_ac_short] \<le> total_duration [fl_ab, fl_bc_back]"
  using net_back_ok(1-4) net_back_built net_back_routes net_back_shortest_time net_back_durations
  by simp

section \<open>Properties of the search for the shortest layover\<close>

lemma shortest_layover_loop_min:
  "route = shortest_layover_loop rs best (total_layover best) \<Longrightarrow>
     route \<in> set (best # rs) \<and> (\<forall>r\<in>set (best # rs). total_layover route \<le> total_layover r)"
proof (induction rs arbitrary: best)
  case Nil
  then show ?case by simp
next
  case (Cons r rs)
  show ?case
  proof (cases "total_layover r < total_layover best")
    case True
    with Cons.prems have "route = shortest_layover_loop rs r (total_layover r)" by simp
    from Cons.IH [OF this] True show ?thesis by auto
  next
    case False
    with Cons.prems have "route = shortest_layover_loop rs best (total_layover best)" by simp
    from Cons.IH [OF this] False show ?thesis by auto
  qed
qed

lemma net3_shortest_layover: "find_shortest_layover net3 ''AAAA'' ''CCCC'' = Inr [fl_ac]"
  by code_simp

text \<open>
  C4. When \<^verbatim>\<open>find_all_routes(a, b)\<close> is not empty, \<^verbatim>\<open>find_shortest_layover(a, b)\<close> returns
  one of its routes, and the total layover of that route is at most the total layover
  of every route of the list.
\<close>

theorem find_shortest_layover_minimal:
  assumes "in_airports g a" and "in_airports g b"
    and "find_all_routes g a b = Inr routes" and "routes \<noteq> []"
  shows "\<exists>route. find_shortest_layover g a b = Inr route \<and> route \<in> set routes
           \<and> (\<forall>r\<in>set routes. total_layover route \<le> total_layover r)"
proof -
  from assms(4) obtain best others where r: "routes = best # others" by (cases routes) auto
  let ?route = "shortest_layover_loop others best (total_layover best)"
  have "find_shortest_layover g a b = Inr ?route"
    using assms(3) r by (simp add: find_shortest_layover_def)
  moreover have "?route \<in> set routes \<and> (\<forall>r\<in>set routes. total_layover ?route \<le> total_layover r)"
    using shortest_layover_loop_min [OF refl, of others best] r by simp
  ultimately show ?thesis by blast
qed

text \<open>Witness for C4: in \<open>net3\<close> the direct flight, with no layover, is returned.\<close>

theorem find_shortest_layover_minimal_witness:
  "find_all_routes net3 ''AAAA'' ''CCCC'' = Inr [[fl_ab, fl_bc], [fl_ac]]
   \<and> find_shortest_layover net3 ''AAAA'' ''CCCC'' = Inr [fl_ac]
   \<and> total_layover [fl_ac] \<le> total_layover [fl_ab, fl_bc]
   \<and> total_layover [fl_ac] \<le> total_layover [fl_ac]"
  using find_shortest_layover_minimal [OF net3_ok(1) net3_ok(2) net3_routes_ac]
  by (simp add: net3_shortest_layover net3_routes_ac)

text \<open>
  C9. When \<^verbatim>\<open>find_all_routes(a, b)\<close> returns no route, \<^verbatim>\<open>find_shortest_layover(a, b)\<close>
  fails: \<^verbatim>\<open>all_routes[0]\<close> raises \<^verbatim>\<open>IndexError\<close>, the only exception the method can raise
  for registered codes.
\<close>

theorem find_shortest_layover_no_route:
  assumes "in_airports g a" and "in_airports g b" and "find_all_routes g a b = Inr []"
  shows "find_shortest_layover g a b = Inl IndexError"
  using assms(3) by (simp add: find_shortest_layover_def)

text \<open>Witness for C9: nothing leads from CCCC to AAAA in \<open>net3\<close>.\<close>

theorem find_shortest_layover_no_route_witness:
  "find_all_routes net3 ''CCCC'' ''AAAA'' = Inr []
   \<and> find_shortest_layover net3 ''CCCC'' ''AAAA'' = Inl IndexError"
  using find_shortest_layover_no_route [OF net3_ok(2) net3_ok(1) net3_routes_ca]
  by (simp add: net3_routes_ca)

text \<open>
  C10. \<^verbatim>\<open>total_layover\<close> returns the zero \<^verbatim>\<open>timedelta\<close> for every route of fewer than two
  flights, and \<^verbatim>\<open>find_shortest_layover\<close> compares a direct route with that value: whenever
  a single-flight route is among the routes found, the route it returns has a total
  layover of at most zero.
\<close>

theorem total_layover_short:
  "(length route < 2 \<longrightarrow> total_layover route = 0)
   \<and> (find_all_routes g a b = Inr routes \<and> [fl] \<in> set routes \<longrightarrow>
        (\<exists>best. find_shortest_layover g a b = Inr best \<and> total_layover best \<le> 0))"
proof
  show "length route < 2 \<longrightarrow> total_layover route = 0"
    by (simp add: total_layover_def)
next
  show "find_all_routes g a b = Inr routes \<and> [fl] \<in> set routes \<longrightarrow>
        (\<exists>best. find_shortest_layover g a b = Inr best \<and> total_layover best \<le> 0)"
  proof
    assume a: "find_all_routes g a b = Inr routes \<and> [fl] \<in> set routes"
    then obtain best others where r: "routes = best # others" by (cases routes) auto
    let ?route = "shortest_layover_loop others best (total_layover best)"
    have "find_shortest_layover g a b = Inr ?route"
      using a r by (simp add: find_shortest_layover_def)
    moreover have "\<forall>r\<in>set routes. total_layover ?route \<le> total_layover r"
      using shortest_layover_loop_min [OF refl, of others best] r by simp
    then have "total_layover ?route \<le> total_layover [fl]" using a by blast
    then have "total_layover ?route \<le> 0" by (simp add: total_layover_def)
    ultimately show "\<exists>best. find_shortest_layover g a b = Inr best \<and> total_layover best \<le> 0"
      by blast
  qed
qed

text \<open>Witness for C10: the empty route, and the direct flight of \<open>net3\<close>.\<close>

theorem total_layover_short_witness:
  "length [fl_ac] < 2 \<and> total_layover [fl_ac] = 0 \<and> total_layover [] = 0
   \<and> find_all_routes net3 ''AAAA'' ''CCCC'' = Inr [[fl_ab, fl_bc], [fl_ac]]
   \<and> find_shortest_layover net3 ''AAAA'' ''CCCC'' = Inr [fl_ac]"
  using total_layover_short [of "[fl_ac]" net3 "''AAAA''" "''CCCC''" "[[fl_ab, fl_bc], [fl_ac]]" fl_ac]
    total_layover_short [of "[]" net3 "''AAAA''" "''CCCC''" "[[fl_ab, fl_bc], [fl_ac]]" fl_ac]
  by (simp add: net3_routes_ac net3_shortest_layover)

section \<open>Properties of the filters\<close>

lemma any_airline_iff:
  "any_airline airline route \<longleftrightarrow> (\<exists>fl\<in>set route. lower (airline_name fl) = lower airline)"
  by (induction route) auto

lemma airline_loop_filter:
  "airline_loop airline routes acc
     = acc @ filter (\<lambda>r. \<exists>fl\<in>set r. lower (airline_name fl) = lower airline) routes"
  by (induction routes arbitrary: acc) (simp_all add: any_airline_iff)

lemma net3_by_airline:
  "find_routes_by_airline net3 ''AAAA'' ''CCCC'' ''AIR TWO'' = Inr [[fl_ab, fl_bc]]"
  by code_simp

lemma net3_airlines:
  "lower (airline_name fl_bc) = lower ''AIR TWO''" "lower (airline_name fl_ab) \<noteq> lower ''AIR TWO''"
  by code_simp+

lemma lower_examples:
  "lower ''AIR TWO'' = ''air two''"
  "lower ''Air Two'' = ''air two''"
  "lower ''Air One'' = ''air one''"
  "lower [CHR 0xC9] = [CHR 0xE9]"
  "lower [CHR 0xE9] = [CHR 0xE9]"
  "lower [CHR 0xD7, CHR 0xDF, CHR 0xFF, CHR ''@'', CHR ''[''] = [CHR 0xD7, CHR 0xDF, CHR 0xFF, CHR ''@'', CHR ''['']"
  "lower [CHR 0xC0, CHR 0xD6, CHR 0xD8, CHR 0xDE] = [CHR 0xE0, CHR 0xF6, CHR 0xF8, CHR 0xFE]"
  by code_simp+

lemma net_aero_by_airline:
  "in_airports net_aero ''AAAA''" "in_airports net_aero ''CCCC''"
  "find_all_routes net_aero ''AAAA'' ''CCCC'' = Inr [[fl_ac_aero]]"
  "find_routes_by_airline net_aero ''AAAA'' ''CCCC'' [CHR ''A'', CHR 0xC9, CHR ''R'', CHR ''O'']
     = Inr [[fl_ac_aero]]"
  by code_simp+

text \<open>
  C5. For registered codes, \<^verbatim>\<open>find_routes_by_airline(a, b, X)\<close> returns exactly the routes
  of \<^verbatim>\<open>find_all_routes(a, b)\<close>, in their order, that have at least one flight whose
  \<^verbatim>\<open>airline_name\<close> equals \<open>X\<close> after \<^verbatim>\<open>lower()\<close> on both sides.
\<close>

theorem find_routes_by_airline_any_leg:
  assumes "in_airports g a" and "in_airports g b"
  shows "\<exists>routes. find_all_routes g a b = Inr routes
           \<and> find_routes_by_airline g a b X
               = Inr (filter (\<lambda>r. \<exists>fl\<in>set r. lower (airline_name fl) = lower X) routes)"
  using assms by (simp add: find_routes_by_airline_def find_all_routes_def airline_loop_filter)

text \<open>
  Witness for C5: asked for AIR TWO, \<open>net3\<close> gives the two-leg route, whose second leg is
  flown by Air Two and whose first leg by Air One; asked for the name in capitals, with
  the capital E with acute accent (code point 201), \<open>net_aero\<close> gives its flight.
\<close>

theorem find_routes_by_airline_any_leg_witness:
  "find_all_routes net3 ''AAAA'' ''CCCC'' = Inr [[fl_ab, fl_bc], [fl_ac]]
   \<and> find_routes_by_airline net3 ''AAAA'' ''CCCC'' ''AIR TWO'' = Inr [[fl_ab, fl_bc]]
   \<and> lower (airline_name fl_bc) = lower ''AIR TWO''
   \<and> lower (airline_name fl_ab) \<noteq> lower ''AIR TWO''
   \<and> find_all_routes net_aero ''AAAA'' ''CCCC'' = Inr [[fl_ac_aero]]
   \<and> find_routes_by_airline net_aero ''AAAA'' ''CCCC'' [CHR ''A'', CHR 0xC9, CHR ''R'', CHR ''O'']
       = Inr [[fl_ac_aero]]"
  using find_routes_by_airline_any_leg [OF net3_ok(1) net3_ok(2), of "''AIR TWO''"]
    find_routes_by_airline_any_leg [OF net_aero_by_airline(1) net_aero_by_airline(2),
      of "[CHR ''A'', CHR 0xC9, CHR ''R'', CHR ''O'']"]
  by (simp add: net3_routes_ac net3_by_airline net3_airlines net_aero_by_airline)

lemma countries_loop_iff:
  "countries_loop V route acc \<noteq> [] \<longleftrightarrow>
     acc \<noteq> [] \<or> (\<exists>fl\<in>set route. country (destination fl) \<notin> set V)"
  by (induction route arbitrary: acc) auto

lemma valid_loop_filter:
  "valid_loop V routes acc
     = acc @ filter (\<lambda>r. \<exists>fl\<in>set r. country (destination fl) \<notin> set V) routes"
  by (induction routes arbitrary: acc) (simp_all add: countries_loop_iff)

lemma net3_valid:
  "find_valid_routes (\<lambda>p. Inr [''Y'']) net3 ''HK'' ''AAAA'' ''CCCC'' = Inr [[fl_ab, fl_bc], [fl_ac]]"
  "find_valid_routes (\<lambda>p. Inr [''Y'', ''Z'']) net3 ''HK'' ''AAAA'' ''CCCC'' = Inr []"
  by code_simp+

text \<open>
  C6. For registered codes and a passport for which the visa service answers with the
  list \<open>V\<close>, \<^verbatim>\<open>find_valid_routes\<close> returns exactly the routes of \<^verbatim>\<open>find_all_routes(a, b)\<close>,
  in their order, that have at least one flight whose destination country is not in
  \<open>V\<close>.
\<close>

theorem find_valid_routes_any_leg:
  assumes "in_airports g a" and "in_airports g b" and "visa_required passport = Inr V"
  shows "\<exists>routes. find_all_routes g a b = Inr routes
           \<and> find_valid_routes visa_required g passport a b
               = Inr (filter (\<lambda>r. \<exists>fl\<in>set r. country (destination fl) \<notin> set V) routes)"
  using assms by (simp add: find_valid_routes_def find_all_routes_def valid_loop_filter)

text \<open>
  Witness for C6: with a visa required for country Y only, the two-leg route of \<open>net3\<close>
  is kept although its first leg lands in Y.
\<close>

theorem find_valid_routes_any_leg_witness:
  "find_all_routes net3 ''AAAA'' ''CCCC'' = Inr [[fl_ab, fl_bc], [fl_ac]]
   \<and> find_valid_routes (\<lambda>p. Inr [''Y'']) net3 ''HK'' ''AAAA'' ''CCCC''
       = Inr [[fl_ab, fl_bc], [fl_ac]]
   \<and> country (destination fl_ab) \<in> set [''Y'']
   \<and> country (destination fl_bc) \<notin> set [''Y'']"
  using find_valid_routes_any_leg [OF net3_ok(1) net3_ok(2), of "\<lambda>p. Inr [''Y'']" "''HK''" "[''Y'']"]
  by (simp add: net3_routes_ac net3_valid fl_ab_def fl_bc_def mk_flight_def apB_def apC_def
      mk_airport_def)

section \<open>Properties of the construction\<close>

lemma net3_add_apA2:
  "add_airport net3 apA2
     = (Inr (), \<lparr>airports = [(''AAAA'', apA2), (''BBBB'', apB), (''CCCC'', apC)],
                flights = flights net3\<rparr>)"
  by (simp add: add_airport_def net3_def apA2_def mk_airport_def)

lemma flights_get_update:
  "flights_get (g\<lparr>flights := AList.update k fs (flights g)\<rparr>) k' 
     = (if k' = k then fs else flights_get g k')"
  by (simp add: flights_get_def update_conv')

lemma add_flight_fails:
  "(\<exists>m. fst (add_flight g f) = Inl (ValueError m)) \<longleftrightarrow>
     \<not> in_airports g (icao (origin f)) \<or> \<not> in_airports g (icao (destination f))"
  by (auto simp: add_flight_def split: option.splits)

lemma add_flight_unchanged:
  "fst (add_flight g f) \<noteq> Inr () \<Longrightarrow> snd (add_flight g f) = g"
  by (auto simp: add_flight_def split: option.splits if_splits)

lemma add_flight_result:
  assumes "fst (add_flight g f) = Inr ()"
  shows "snd (add_flight g f)
           = g\<lparr>flights := AList.update (icao (origin f))
                 (set_add f (flights_get g (icao (origin f)))) (flights g)\<rparr>"
proof (cases "map_of (flights g) (icao (origin f))")
  case None
  with assms show ?thesis
    by (simp add: add_flight_def flights_get_def set_add_def split: if_splits)
next
  case (Some fs)
  with assms show ?thesis
    by (simp add: add_flight_def flights_get_def split: if_splits)
qed

lemma add_flight_inserts:
  assumes "fst (add_flight g f) = Inr ()"
  shows "airports (snd (add_flight g f)) = airports g"
    and "set (flights_get (snd (add_flight g f)) (icao (origin f)))
           = insert f (set (flights_get g (icao (origin f))))"
    and "k \<noteq> icao (origin f) \<Longrightarrow> flights_get (snd (add_flight g f)) k = flights_get g k"
  unfolding add_flight_result [OF assms]
  by (auto simp: flights_get_update set_add_def)

lemma add_flight_same_object:
  assumes "fst (add_flight g f) = Inr ()" and "f \<in> set (flights_get g (icao (origin f)))"
  shows "snd (add_flight g f) = g"
proof -
  from assms(2) obtain fs where m: "map_of (flights g) (icao (origin f)) = Some fs"
    and f: "f \<in> set fs"
    by (cases "map_of (flights g) (icao (origin f))") (auto simp: flights_get_def)
  from m have "AList.update (icao (origin f)) fs (flights g) = flights g" by (rule update_triv)
  with assms(1) m f show ?thesis
    by (auto simp: add_flight_def set_add_def split: if_splits)
qed

lemma net3_add_fl_da:
  "add_flight net3 fl_da = (Inl (ValueError ''Origin airport not in network''), net3)"
  by code_simp

lemma net3_add_fl_ab: "add_flight net3 fl_ab = (Inr (), net3)"
  by code_simp

lemma net3_add_fl_ab_twin:
  "add_flight net3 fl_ab_twin
     = (Inr (), \<lparr>airports = airports net3,
                flights = [(''AAAA'', [fl_ab, fl_ac, fl_ab_twin]), (''BBBB'', [fl_bc])]\<rparr>)"
  by code_simp

text \<open>
  The documented invariants hold for the empty network and are kept by both methods, so
  they hold for every network built through them from flights that depart before they
  arrive.
\<close>

lemma set_update_subset: "set (AList.update k v al) \<subseteq> insert (k, v) (set al)"
  by (induction al) auto

lemma every_flight_add_flight:
  assumes "every_flight P g" and "fst (add_flight g f) = Inr ()" and "P (icao (origin f)) f"
  shows "every_flight P (snd (add_flight g f))"
proof -
  let ?k = "icao (origin f)"
  let ?new = "set_add f (flights_get g ?k)"
  have old: "\<forall>fl\<in>set (flights_get g ?k). P ?k fl"
    using every_flightD [OF assms(1)] by blast
  have new: "\<forall>fl\<in>set ?new. P ?k fl"
    using old assms(3) by (auto simp: set_add_def)
  have "P k fl" if m: "(k, fs) \<in> set (AList.update ?k ?new (flights g))" and fl: "fl \<in> set fs"
    for k fs fl
  proof -
    from m set_update_subset [of ?k ?new "flights g"]
    have "(k, fs) = (?k, ?new) \<or> (k, fs) \<in> set (flights g)" by blast
    then show ?thesis
    proof
      assume "(k, fs) = (?k, ?new)"
      with new fl show ?thesis by simp
    next
      assume "(k, fs) \<in> set (flights g)"
      with assms(1) fl show ?thesis by (auto simp: every_flight_def list_all_iff)
    qed
  qed
  then show ?thesis
    unfolding add_flight_result [OF assms(2)] by (auto simp: every_flight_def list_all_iff)
qed

lemma init_network_invariants:
  "flights_keyed init_network" "destinations_registered init_network"
  "durations_positive init_network"
  by (simp_all add: flights_keyed_def destinations_registered_def durations_positive_def
      every_flight_def init_network_def)

lemma add_airport_invariants:
  "flights_keyed g \<Longrightarrow> flights_keyed (snd (add_airport g a))"
  "destinations_registered g \<Longrightarrow> destinations_registered (snd (add_airport g a))"
  "durations_positive g \<Longrightarrow> durations_positive (snd (add_airport g a))"
  by (auto simp: flights_keyed_def destinations_registered_def durations_positive_def
      every_flight_def add_airport_def in_airports_def update_conv' list_all_iff)

lemma add_flight_invariants:
  assumes "fst (add_flight g f) = Inr ()"
  shows "flights_keyed g \<Longrightarrow> flights_keyed (snd (add_flight g f))"
    and "destinations_registered g \<Longrightarrow> destinations_registered (snd (add_flight g f))"
    and "durations_positive g \<Longrightarrow> departure_time f < arrival_time f \<Longrightarrow>
           durations_positive (snd (add_flight g f))"
proof -
  assume "flights_keyed g"
  then show "flights_keyed (snd (add_flight g f))"
    unfolding flights_keyed_def using assms by (rule every_flight_add_flight) simp
next
  have reg: "in_airports g (icao (destination f))"
    using assms by (auto simp: add_flight_def split: if_splits)
  have air: "in_airports (snd (add_flight g f)) = in_airports g"
    using add_flight_inserts(1) [OF assms] by (simp add: in_airports_def fun_eq_iff)
  assume "destinations_registered g"
  then have "every_flight (\<lambda>k fl. in_airports g (icao (destination fl))) (snd (add_flight g f))"
    unfolding destinations_registered_def using assms reg by (rule every_flight_add_flight)
  then show "destinations_registered (snd (add_flight g f))"
    by (simp add: destinations_registered_def air)
next
  assume d: "durations_positive g" and p: "departure_time f < arrival_time f"
  from d [unfolded durations_positive_def] assms p
  show "durations_positive (snd (add_flight g f))"
    unfolding durations_positive_def by (rule every_flight_add_flight)
qed

text \<open>
  C7, as the code has it. For a network that already holds an airport under the code of
  the argument, \<^verbatim>\<open>add_airport\<close> does not fail: it stores the argument under that code in
  place of the airport that was there, and changes nothing else.
\<close>

theorem add_airport_replaces:
  assumes "in_airports g (icao a)"
  shows "fst (add_airport g a) = Inr ()
       \<and> map_of (airports (snd (add_airport g a))) = (map_of (airports g))(icao a \<mapsto> a)
       \<and> map fst (airports (snd (add_airport g a))) = map fst (airports g)
       \<and> flights (snd (add_airport g a)) = flights g"
proof -
  from assms have "icao a \<in> set (map fst (airports g))"
    by (auto simp: in_airports_def dest: map_of_SomeD) (metis fst_conv image_eqI map_of_SomeD)
  then show ?thesis
    by (simp add: add_airport_def update_conv' update_keys)
qed

text \<open>Witness for C7: a second airport with the code AAAA replaces the first.\<close>

theorem add_airport_replaces_witness:
  "in_airports net3 (icao apA2) \<and> fst (add_airport net3 apA2) = Inr ()
   \<and> airports (snd (add_airport net3 apA2)) = [(''AAAA'', apA2), (''BBBB'', apB), (''CCCC'', apC)]"
proof -
  have h: "in_airports net3 (icao apA2)" by code_simp
  from add_airport_replaces [OF h] h show ?thesis by (simp add: net3_add_apA2)
qed

text \<open>
  C7 as stated fails: \<open>net3\<close> holds an airport under AAAA, and adding another airport
  with that code returns normally.
\<close>

theorem add_airport_duplicate_counterexample:
  "in_airports net3 (icao apA2) \<and> map_of (airports net3) (icao apA2) = Some apA \<and> apA \<noteq> apA2
   \<and> add_airport net3 apA2
       = (Inr (), \<lparr>airports = [(''AAAA'', apA2), (''BBBB'', apB), (''CCCC'', apC)],
                  flights = flights net3\<rparr>)"
proof -
  have "in_airports net3 (icao apA2)" by code_simp
  moreover have "map_of (airports net3) (icao apA2) = Some apA"
    by (simp add: net3_def apA2_def mk_airport_def)
  moreover have "apA \<noteq> apA2" by (simp add: apA_def apA2_def mk_airport_def)
  ultimately show ?thesis using net3_add_apA2 by simp
qed

lemma add_flight_succeeds:
  "fst (add_flight g f) = Inr () \<longleftrightarrow>
     in_airports g (icao (origin f)) \<and> in_airports g (icao (destination f))"
  by (auto simp: add_flight_def split: option.splits)

lemma net3_add_fl_cb:
  "add_flight net3 fl_cb
     = (Inr (), \<lparr>airports = airports net3,
                flights = [(''AAAA'', [fl_ab, fl_ac]), (''BBBB'', [fl_bc]), (''CCCC'', [fl_cb])]\<rparr>)"
  by code_simp

lemma net3_add_fl_bd:
  "add_flight net3 fl_bd = (Inl (ValueError ''Destination airport not in network''), net3)"
  by code_simp

text \<open>
  C8, as the code has it. \<^verbatim>\<open>add_flight\<close> raises \<^verbatim>\<open>ValueError\<close> exactly when the code of the
  origin or of the destination is not registered, and then leaves the network as it
  was; it returns normally exactly when both codes are registered. It then leaves the
  airports alone, adds the flight to the set stored under the origin's code and leaves
  every other set as it was; when that very flight object is already in the set, the
  network does not change.
\<close>

theorem add_flight_outcome:
  "((\<exists>m. fst (add_flight g f) = Inl (ValueError m)) \<longleftrightarrow>
      \<not> in_airports g (icao (origin f)) \<or> \<not> in_airports g (icao (destination f)))
   \<and> (fst (add_flight g f) = Inr () \<longleftrightarrow>
      in_airports g (icao (origin f)) \<and> in_airports g (icao (destination f)))
   \<and> (fst (add_flight g f) \<noteq> Inr () \<longrightarrow> snd (add_flight g f) = g)
   \<and> (fst (add_flight g f) = Inr () \<longrightarrow>
        airports (snd (add_flight g f)) = airports g
        \<and> set (flights_get (snd (add_flight g f)) (icao (origin f)))
            = insert f (set (flights_get g (icao (origin f))))
        \<and> (\<forall>k. k \<noteq> icao (origin f) \<longrightarrow>
              flights_get (snd (add_flight g f)) k = flights_get g k))
   \<and> (fst (add_flight g f) = Inr () \<and> f \<in> set (flights_get g (icao (origin f))) \<longrightarrow>
        snd (add_flight g f) = g)"
  using add_flight_fails [of g f] add_flight_succeeds [of g f] add_flight_unchanged [of g f]
    add_flight_inserts [of g f] add_flight_same_object [of g f]
  by blast

text \<open>
  Witness for C8: a flight from the unregistered DDDD and a flight to it are refused and
  \<open>net3\<close> stays as it is; adding the stored flight from AAAA to BBBB again changes nothing; the flight from
  CCCC to BBBB is accepted and becomes the only member of a new set under CCCC.
\<close>

theorem add_flight_outcome_witness:
  "\<not> in_airports net3 (icao (origin fl_da))
   \<and> add_flight net3 fl_da = (Inl (ValueError ''Origin airport not in network''), net3)
   \<and> \<not> in_airports net3 (icao (destination fl_bd))
   \<and> add_flight net3 fl_bd = (Inl (ValueError ''Destination airport not in network''), net3)
   \<and> in_airports net3 (icao (origin fl_ab)) \<and> in_airports net3 (icao (destination fl_ab))
   \<and> fl_ab \<in> set (flights_get net3 (icao (origin fl_ab)))
   \<and> add_flight net3 fl_ab = (Inr (), net3)
   \<and> in_airports net3 (icao (origin fl_cb)) \<and> in_airports net3 (icao (destination fl_cb))
   \<and> fst (add_flight net3 fl_cb) = Inr ()
   \<and> flights_get (snd (add_flight net3 fl_cb)) ''CCCC'' = [fl_cb]
   \<and> flights_get (snd (add_flight net3 fl_cb)) ''AAAA'' = flights_get net3 ''AAAA''"
proof -
  have h: "\<not> in_airports net3 (icao (origin fl_da))" "in_airports net3 (icao (origin fl_ab))"
    "in_airports net3 (icao (destination fl_ab))"
    "fl_ab \<in> set (flights_get net3 (icao (origin fl_ab)))"
    "in_airports net3 (icao (origin fl_cb))" "in_airports net3 (icao (destination fl_cb))"
    "\<not> in_airports net3 (icao (destination fl_bd))"
    by code_simp+
  have c: "flights_get (snd (add_flight net3 fl_cb)) ''CCCC'' = [fl_cb]"
    "flights_get (snd (add_flight net3 fl_cb)) ''AAAA'' = flights_get net3 ''AAAA''"
    by code_simp+
  from add_flight_outcome [of net3 fl_da] add_flight_outcome [of net3 fl_ab]
    add_flight_outcome [of net3 fl_cb] add_flight_outcome [of net3 fl_bd] h c
  show ?thesis by (simp add: net3_add_fl_da net3_add_fl_ab net3_add_fl_cb net3_add_fl_bd)
qed

text \<open>
  C8 as stated fails on flights that are equal field by field: a second flight object
  with the seven values of the stored flight from AAAA to BBBB is added as a third
  member of the set of AAAA.
\<close>

theorem add_flight_twin_counterexample:
  "same_fields fl_ab_twin fl_ab \<and> fl_ab \<in> set (flights_get net3 (icao (origin fl_ab_twin)))
   \<and> add_flight net3 fl_ab_twin
       = (Inr (), \<lparr>airports = airports net3,
                  flights = [(''AAAA'', [fl_ab, fl_ac, fl_ab_twin]), (''BBBB'', [fl_bc])]\<rparr>)
   \<and> snd (add_flight net3 fl_ab_twin) \<noteq> net3"
proof -
  have "same_fields fl_ab_twin fl_ab" by code_simp
  moreover have "fl_ab \<in> set (flights_get net3 (icao (origin fl_ab_twin)))" by code_simp
  moreover have "snd (add_flight net3 fl_ab_twin) \<noteq> net3" by code_simp
  ultimately show ?thesis using net3_add_fl_ab_twin by simp
qed

end
